theory Spec2Isabelle
  imports Complex_Main
begin

section \<open>Python values shared by the modules\<close>

text \<open>
  Exceptions of the Python code are values: a function that can raise returns
  \<open>py_error + 'a\<close>, with \<open>Inl\<close> for the exception that leaves the function.
\<close>

datatype py_error = ValueError | OverflowError | ZeroDivisionError | AssertionError

section \<open>Python built-ins used by the modules\<close>

subsection \<open>\<open>str\<close> methods\<close>

text \<open>
  Strings are lists of characters, read as ASCII text. \<open>str.strip()\<close> removes the
  ASCII white space of \<open>str.isspace\<close> at both ends. \<open>replace\<close> is only called with a
  non-empty \<open>old\<close> in the sources; \<open>split\<close> only with a one-character separator.
\<close>

definition is_space :: "char \<Rightarrow> bool" where
  "is_space c = (c \<in> set [CHR 0x09, CHR 0x0A, CHR 0x0B, CHR 0x0C, CHR 0x0D,
                          CHR 0x1C, CHR 0x1D, CHR 0x1E, CHR 0x1F, CHR 0x20])"

definition strip :: "string \<Rightarrow> string" where
  "strip s = rev (dropWhile is_space (rev (dropWhile is_space s)))"


definition startswith :: "string \<Rightarrow> string \<Rightarrow> bool" where
  "startswith s p = (take (length p) s = p)"


fun contains :: "string \<Rightarrow> string \<Rightarrow> bool" where
  "contains [] sub = (sub = [])"
| "contains (c # cs) sub = (startswith (c # cs) sub \<or> contains cs sub)"

function replace :: "string \<Rightarrow> string \<Rightarrow> string \<Rightarrow> string" where
  "replace [] old new = []"
| "replace (c # cs) old new =
     (if old \<noteq> [] \<and> startswith (c # cs) old
      then new @ replace (drop (length old) (c # cs)) old new
      else c # replace cs old new)"
  by pat_completeness auto
termination
  by (relation "measure (\<lambda>(s, old, new). length s)") (auto simp: neq_Nil_conv)

fun split :: "string \<Rightarrow> char \<Rightarrow> string list" where
  "split [] sep = [[]]"
| "split (c # cs) sep =
     (if c = sep then [] # split cs sep
      else (case split cs sep of [] \<Rightarrow> [[c]] | p # ps \<Rightarrow> (c # p) # ps))"

subsection \<open>\<open>str(int)\<close>\<close>

function str_digits :: "int \<Rightarrow> string" where
  "str_digits n = (if n < 10 then [''0123456789'' ! nat n]
                   else str_digits (n div 10) @ [''0123456789'' ! nat (n mod 10)])"
  by pat_completeness auto
termination
  by (relation "measure nat") auto

declare str_digits.simps [simp del]

definition str_int :: "int \<Rightarrow> string" where
  "str_int i = (if i < 0 then CHR ''-'' # str_digits (- i) else str_digits i)"

subsection \<open>\<open>float(str)\<close>, \<open>int(float)\<close> and \<open>int / int\<close>\<close>

text \<open>
  A Python float is an IEEE binary64 value. \<open>Finite m k\<close> stands for \<open>m * 2 ^ k\<close>; the
  sign of an infinity and of zero is dropped, since no caller reads it. \<open>round64\<close> rounds
  the rational \<open>p / q\<close> (\<open>p \<ge> 0\<close>, \<open>q > 0\<close>, the sign apart) to the nearest binary64
  value, ties to even, as \<open>float(str)\<close> and \<open>int / int\<close> do: 53 significant bits (fewer
  below \<open>2 ^ -1022\<close>), and infinity from \<open>2 ^ 1024 - 2 ^ 970\<close> on. \<open>bit_length\<close> is
  \<open>int.bit_length\<close>, used to find the binary exponent of the quotient.
\<close>

datatype pyfloat = Finite int int | Infinity | NaN

function bit_length :: "int \<Rightarrow> int" where
  "bit_length n = (if n \<le> 0 then 0 else 1 + bit_length (n div 2))"
  by pat_completeness auto
termination
  by (relation "measure nat") auto

declare bit_length.simps [simp del]

definition round_half_even :: "int \<Rightarrow> int \<Rightarrow> int" where
  "round_half_even n d =
     (let f = n div d; r = n mod d
      in if 2 * r < d then f else if 2 * r > d then f + 1
         else if even f then f else f + 1)"

definition round64 :: "bool \<Rightarrow> int \<Rightarrow> int \<Rightarrow> pyfloat" where
  "round64 neg p q =
     (if p = 0 then Finite 0 0
      else
        let t = bit_length p - bit_length q;
            e = (if (if 0 \<le> t then q * 2 ^ nat t \<le> p else q \<le> p * 2 ^ nat (- t))
                 then t else t - 1);
            k = max (e - 52) (- 1074);
            m = (if 0 \<le> k then round_half_even p (q * 2 ^ nat k)
                 else round_half_even (p * 2 ^ nat (- k)) q)
        in if 0 \<le> k \<and> 2 ^ 1024 \<le> m * 2 ^ nat k then Infinity
           else Finite (if neg then - m else m) k)"

text \<open>\<open>int(f)\<close> truncates towards zero and raises on an infinity or a NaN.\<close>

definition py_int :: "pyfloat \<Rightarrow> py_error + int" where
  "py_int f =
     (case f of
        Infinity \<Rightarrow> Inl OverflowError
      | NaN \<Rightarrow> Inl ValueError
      | Finite m k \<Rightarrow>
          Inr (if 0 \<le> k then m * 2 ^ nat k
               else if 0 \<le> m then m div 2 ^ nat (- k)
               else - ((- m) div 2 ^ nat (- k))))"

text \<open>
  \<open>a / b\<close> on integers is the correctly rounded quotient; a quotient that rounds to
  infinity raises OverflowError.
\<close>

definition truediv :: "int \<Rightarrow> int \<Rightarrow> py_error + pyfloat" where
  "truediv a b =
     (if b = 0 then Inl ZeroDivisionError
      else (case round64 ((a < 0) \<noteq> (b < 0)) \<bar>a\<bar> \<bar>b\<bar> of
              Infinity \<Rightarrow> Inl OverflowError
            | f \<Rightarrow> Inr f))"

text \<open>
  The literals \<open>float\<close> reads, after stripping white space: an optional sign, then
  \<open>inf\<close>, \<open>infinity\<close> or \<open>nan\<close> in any case, or a decimal numeral with an optional
  fraction and exponent, where single underscores may stand between digits. A numeral
  too large for binary64 reads as infinity; anything else raises ValueError.
\<close>

definition is_digit :: "char \<Rightarrow> bool" where
  "is_digit c = (c \<in> set ''0123456789'')"

definition digit_val :: "char \<Rightarrow> int" where
  "digit_val c = of_char c - 48"

definition int_of_digits :: "string \<Rightarrow> int" where
  "int_of_digits ds = foldl (\<lambda>a c. 10 * a + digit_val c) 0 ds"

definition to_lower :: "char \<Rightarrow> char" where
  "to_lower c = (if (65::nat) \<le> of_char c \<and> of_char c \<le> (90::nat)
                 then char_of (of_char c + (32::nat)) else c)"

fun digitpart_tail :: "string \<Rightarrow> string \<times> string" where
  "digitpart_tail [] = ([], [])"
| "digitpart_tail [c] = (if is_digit c then ([c], []) else ([], [c]))"
| "digitpart_tail (c # d # cs) =
     (if is_digit c then (case digitpart_tail (d # cs) of (ds, r) \<Rightarrow> (c # ds, r))
      else if c = CHR ''_'' \<and> is_digit d
           then (case digitpart_tail cs of (ds, r) \<Rightarrow> (d # ds, r))
      else ([], c # d # cs))"

definition digitpart :: "string \<Rightarrow> string \<times> string" where
  "digitpart s =
     (case s of
        [] \<Rightarrow> ([], [])
      | c # cs \<Rightarrow> if is_digit c then (case digitpart_tail cs of (ds, r) \<Rightarrow> (c # ds, r))
                  else ([], s))"

definition take_sign :: "string \<Rightarrow> bool \<times> string" where
  "take_sign s =
     (case s of
        [] \<Rightarrow> (False, [])
      | c # cs \<Rightarrow> if c = CHR ''-'' then (True, cs)
                  else if c = CHR ''+'' then (False, cs) else (False, s))"

definition parse_exponent :: "string \<Rightarrow> int option" where
  "parse_exponent s =
     (case s of
        [] \<Rightarrow> Some 0
      | c # cs \<Rightarrow>
          if c = CHR ''e'' \<or> c = CHR ''E'' then
            (case take_sign cs of (neg, r) \<Rightarrow>
               (case digitpart r of (ds, r') \<Rightarrow>
                  if ds = [] \<or> r' \<noteq> [] then None
                  else Some (if neg then - int_of_digits ds else int_of_digits ds)))
          else None)"

definition parse_decimal :: "string \<Rightarrow> (int \<times> int) option" where
  "parse_decimal s =
     (case digitpart s of (ip, r1) \<Rightarrow>
        (case (case r1 of [] \<Rightarrow> ([], [])
               | c # cs \<Rightarrow> if c = CHR ''.'' then digitpart cs else ([], r1)) of (fp, r2) \<Rightarrow>
           if ip = [] \<and> fp = [] then None
           else (case parse_exponent r2 of
                   None \<Rightarrow> None
                 | Some ex \<Rightarrow> Some (int_of_digits (ip @ fp), ex - int (length fp)))))"

definition py_float :: "string \<Rightarrow> py_error + pyfloat" where
  "py_float s =
     (case take_sign (strip s) of (neg, u) \<Rightarrow>
        if map to_lower u = ''inf'' \<or> map to_lower u = ''infinity'' then Inr Infinity
        else if map to_lower u = ''nan'' then Inr NaN
        else (case parse_decimal u of
                None \<Rightarrow> Inl ValueError
              | Some (m, ex) \<Rightarrow>
                  Inr (if 0 \<le> ex then round64 neg (m * 10 ^ nat ex) 1
                       else round64 neg m (10 ^ nat (- ex)))))"

text \<open>The composition \<open>int(float(s))\<close> of the sources.\<close>

definition int_float :: "string \<Rightarrow> py_error + int" where
  "int_float s = (case py_float s of Inl e \<Rightarrow> Inl e | Inr f \<Rightarrow> py_int f)"

section \<open>hierarchy.py: the UI tree and its interactive elements\<close>

subsection \<open>The parsed document\<close>

text \<open>
  \<open>xml.etree.ElementTree\<close> is outside the repository. An element is its tag, its
  attributes (distinct keys) and its children in document order; \<open>ET.fromstring\<close> is a
  parameter \<open>fromstring\<close> of the functions that call it, \<open>None\<close> where it raises.
  \<open>get_attr\<close> is \<open>element.get(key)\<close> and \<open>get_default\<close> is \<open>element.get(key, default)\<close>.
  The field \<open>identifier\<close> of the class \<open>IOSElement\<close> is written \<open>elem_identifier\<close>.
\<close>

datatype xml = Element (tag: string) (attribs: "(string \<times> string) list") (children: "xml list")

definition get_attr :: "xml \<Rightarrow> string \<Rightarrow> string option" where
  "get_attr node key = map_of (attribs node) key"

definition get_default :: "xml \<Rightarrow> string \<Rightarrow> string \<Rightarrow> string" where
  "get_default node key dflt = (case map_of (attribs node) key of None \<Rightarrow> dflt | Some v \<Rightarrow> v)"

type_synonym point = "int \<times> int"
type_synonym box = "point \<times> point"

record IOSElement =
  uid :: string
  bbox :: box
  attrib :: string
  element_type :: string
  name :: "string option"
  label :: "string option"
  elem_identifier :: "string option"

subsection \<open>\<open>parse_bounds\<close>\<close>

text \<open>
  \<open>int_float4\<close> is the block of four conversions \<open>int(float(...))\<close>, in the order \<open>x\<close>,
  \<open>y\<close>, \<open>width\<close>, \<open>height\<close>, that the source repeats three times; the first conversion
  that raises ends it. \<open>parse_bounds_try\<close> is the body of the \<open>try\<close> of \<open>parse_bounds\<close>,
  and \<open>parse_bounds\<close> adds the test for the empty string and the handler
  \<open>except Exception\<close>, which returns \<open>None\<close>.
\<close>

definition int_float4 :: "string \<Rightarrow> string \<Rightarrow> string \<Rightarrow> string \<Rightarrow> py_error + box" where
  "int_float4 x_str y_str width_str height_str =
     (case int_float x_str of Inl e \<Rightarrow> Inl e | Inr x \<Rightarrow>
      (case int_float y_str of Inl e \<Rightarrow> Inl e | Inr y \<Rightarrow>
       (case int_float width_str of Inl e \<Rightarrow> Inl e | Inr width \<Rightarrow>
        (case int_float height_str of Inl e \<Rightarrow> Inl e | Inr height \<Rightarrow>
           Inr ((x, y), (x + width, y + height))))))"

definition parts_box :: "string list \<Rightarrow> py_error + box" where
  "parts_box parts =
     int_float4 (strip (parts ! 0)) (strip (parts ! 1)) (strip (parts ! 2)) (strip (parts ! 3))"

definition remove_braces :: "string \<Rightarrow> string" where
  "remove_braces s = replace (replace (replace (replace s ''{{'' []) ''}}'' []) ''{'' []) ''}'' []"

definition parse_bounds_try :: "string \<Rightarrow> py_error + box option" where
  "parse_bounds_try bounds_str =
     (if contains bounds_str ''{{'' then
        (let bounds_str' = remove_braces bounds_str;
             parts = split bounds_str' CHR '',''
         in if 4 \<le> length parts then map_sum id Some (parts_box parts)
            else (let parts = split bounds_str' CHR '',''
                  in if 4 \<le> length parts then map_sum id Some (parts_box parts)
                     else Inr None))
      else (let parts = split bounds_str CHR '',''
            in if 4 \<le> length parts then map_sum id Some (parts_box parts)
               else Inr None))"

definition parse_bounds :: "string \<Rightarrow> box option" where
  "parse_bounds bounds_str =
     (if bounds_str = [] then None
      else (case parse_bounds_try bounds_str of Inl e \<Rightarrow> None | Inr r \<Rightarrow> r))"

text \<open>A token of a bounds string: a text without comma and without brace.\<close>

definition plain_token :: "string \<Rightarrow> bool" where
  "plain_token a = (CHR '','' \<notin> set a \<and> CHR ''{'' \<notin> set a \<and> CHR ''}'' \<notin> set a)"

subsection \<open>\<open>get_element_bounds\<close>\<close>

text \<open>
  The handler of the second source is \<open>except (ValueError, TypeError)\<close>: a ValueError of
  a conversion gives \<open>None\<close>, any other exception leaves the function.
\<close>

definition get_element_bounds :: "xml \<Rightarrow> py_error + box option" where
  "get_element_bounds element =
     (let bounds_str = get_default element ''bounds'' [] in
      case (if bounds_str \<noteq> [] then parse_bounds bounds_str else None) of
        Some b \<Rightarrow> Inr (Some b)
      | None \<Rightarrow>
          (let x_str = get_default element ''x'' [];
               y_str = get_default element ''y'' [];
               width_str = get_default element ''width'' [];
               height_str = get_default element ''height'' []
           in if x_str \<noteq> [] \<and> y_str \<noteq> [] \<and> width_str \<noteq> [] \<and> height_str \<noteq> [] then
                (case int_float4 x_str y_str width_str height_str of
                   Inr b \<Rightarrow> Inr (Some b)
                 | Inl ValueError \<Rightarrow> Inr None
                 | Inl e \<Rightarrow> Inl e)
              else Inr None))"

subsection \<open>\<open>get_element_id\<close>\<close>

text \<open>
  \<open>first_truthy\<close> is the chain \<open>element.get('name') or element.get('identifier') or
  element.get('label', '')\<close>: an absent or empty attribute is falsy.
\<close>

definition first_truthy :: "xml \<Rightarrow> string" where
  "first_truthy element =
     (case get_attr element ''name'' of
        Some (c # cs) \<Rightarrow> c # cs
      | _ \<Rightarrow> (case get_attr element ''identifier'' of
                Some (c # cs) \<Rightarrow> c # cs
              | _ \<Rightarrow> get_default element ''label'' []))"

definition get_element_id :: "xml \<Rightarrow> py_error + string" where
  "get_element_id element =
     (let etype = tag element in
      case get_element_bounds element of
        Inl e \<Rightarrow> Inl e
      | Inr b \<Rightarrow>
          (let (elem_w, elem_h) =
                 (case b of
                    Some ((x1, y1), (x2, y2)) \<Rightarrow> (x2 - x1, y2 - y1)
                  | None \<Rightarrow> (0, 0));
               ident = first_truthy element
           in if ident \<noteq> []
              then Inr (etype @ ''_'' @ replace (replace ident '' '' ''_'') '':'' ''_'')
              else Inr (etype @ ''_'' @ str_int elem_w @ ''_'' @ str_int elem_h)))"

subsection \<open>\<open>is_interactive_element\<close>\<close>

definition interactive_types :: "string list" where
  "interactive_types =
     [''XCUIElementTypeButton'', ''XCUIElementTypeCell'', ''XCUIElementTypeTextField'',
      ''XCUIElementTypeSecureTextField'', ''XCUIElementTypeSearchField'',
      ''XCUIElementTypeSlider'', ''XCUIElementTypeSwitch'', ''XCUIElementTypeTab'',
      ''XCUIElementTypeLink'', ''XCUIElementTypeImage'', ''XCUIElementTypeIcon'',
      ''XCUIElementTypeStaticText'']"

definition is_interactive_element :: "xml \<Rightarrow> py_error + bool" where
  "is_interactive_element element =
     (let etype = tag element;
          is_interactive_type = list_ex (\<lambda>interactive_type. contains etype interactive_type)
                                  interactive_types
      in if \<not> is_interactive_type then Inr False
         else if get_default element ''enabled'' ''true'' = ''false'' then Inr False
         else if get_default element ''visible'' ''true'' = ''false'' then Inr False
         else (case get_element_bounds element of
                 Inl e \<Rightarrow> Inl e
               | Inr None \<Rightarrow> Inr False
               | Inr (Some ((x1, y1), (x2, y2))) \<Rightarrow>
                   (let width = x2 - x1; height = y2 - y1
                    in if width \<le> 0 \<or> height \<le> 0 then Inr False
                       else if x1 = 0 \<and> y1 = 0 \<and> x2 = 0 \<and> y2 = 0 then Inr False
                       else Inr True)))"

subsection \<open>Centres and the distance test\<close>

text \<open>
  The source computes \<open>dist = (dx ** 2 + dy ** 2) ** 0.5\<close> and tests \<open>dist <= r\<close> for
  \<open>r = 5\<close> and \<open>r = 10\<close>. The sum of squares is an integer; \<open>** 0.5\<close> first converts it
  to a float, which raises OverflowError from \<open>2 ^ 1024 - 2 ^ 970\<close> on. The square root
  is monotone and exactly \<open>5.0\<close> at 25 and \<open>10.0\<close> at 100, so below the overflow bound
  \<open>dist <= r\<close> holds exactly when the sum of squares is at most \<open>r * r\<close>.
\<close>

definition center :: "box \<Rightarrow> point" where
  "center b = ((fst (fst b) + fst (snd b)) div 2, (snd (fst b) + snd (snd b)) div 2)"

definition sq_dist :: "point \<Rightarrow> point \<Rightarrow> int" where
  "sq_dist c e = (fst c - fst e) ^ 2 + (snd c - snd e) ^ 2"

definition dist_le :: "point \<Rightarrow> point \<Rightarrow> int \<Rightarrow> py_error + bool" where
  "dist_le c e r =
     (if 2 ^ 1024 - 2 ^ 970 \<le> sq_dist c e then Inl OverflowError
      else Inr (sq_dist c e \<le> r * r))"

text \<open>
  The loop \<open>for e in elem_list: ... if dist <= r: close = True; break\<close>, which both the
  traversal (\<open>r = 5\<close>) and the merge (\<open>r = 10\<close>) run: the value of \<open>close\<close>.
\<close>

fun is_close :: "int \<Rightarrow> point \<Rightarrow> IOSElement list \<Rightarrow> py_error + bool" where
  "is_close r c [] = Inr False"
| "is_close r c (e # es) =
     (case dist_le c (center (bbox e)) r of
        Inl err \<Rightarrow> Inl err
      | Inr True \<Rightarrow> Inr True
      | Inr False \<Rightarrow> is_close r c es)"

subsection \<open>\<open>traverse_ios_tree\<close>\<close>

text \<open>
  \<open>visit\<close> is the body of the inner function \<open>traverse\<close> up to the loop over the
  children: \<open>path\<close> is the path with the node already appended, \<open>els\<close> the list
  \<open>elem_list\<close> that the source mutates, returned with the new element appended or as it
  was. \<open>traverse\<close> visits the node and then its children in order, threading the list.
  Python's bound on the depth of the recursion is not part of the model.
\<close>

definition visit :: "string \<Rightarrow> bool \<Rightarrow> xml \<Rightarrow> xml list \<Rightarrow> IOSElement list \<Rightarrow> py_error + IOSElement list" where
  "visit attr add_index node path els =
     (case is_interactive_element node of
        Inl e \<Rightarrow> Inl e
      | Inr False \<Rightarrow> Inr els
      | Inr True \<Rightarrow>
          (case get_element_bounds node of
             Inl e \<Rightarrow> Inl e
           | Inr None \<Rightarrow> Inr els
           | Inr (Some b) \<Rightarrow>
               (case is_close 5 (center b) els of
                  Inl e \<Rightarrow> Inl e
                | Inr True \<Rightarrow> Inr els
                | Inr False \<Rightarrow>
                    (case get_element_id node of
                       Inl e \<Rightarrow> Inl e
                     | Inr elem_id \<Rightarrow>
                         (case (if 1 < length path
                                then (case get_element_id (path ! (length path - 2)) of
                                        Inl e \<Rightarrow> Inl e
                                      | Inr parent_id \<Rightarrow> Inr (parent_id @ ''_'' @ elem_id))
                                else Inr elem_id) of
                            Inl e \<Rightarrow> Inl e
                          | Inr elem_id' \<Rightarrow>
                              Inr (els @
                                [\<lparr>uid = (if add_index
                                         then elem_id' @ ''_'' @ get_default node ''index'' ''0''
                                         else elem_id'),
                                  bbox = b,
                                  attrib = attr,
                                  element_type = tag node,
                                  name = get_attr node ''name'',
                                  label = get_attr node ''label'',
                                  elem_identifier = get_attr node ''identifier''\<rparr>]))))))"

fun traverse :: "string \<Rightarrow> bool \<Rightarrow> xml \<Rightarrow> xml list \<Rightarrow> IOSElement list \<Rightarrow> py_error + IOSElement list"
  and traverse_children :: "string \<Rightarrow> bool \<Rightarrow> xml list \<Rightarrow> xml list \<Rightarrow> IOSElement list \<Rightarrow> py_error + IOSElement list"
where
  "traverse attr add_index (Element t a cs) path els =
     (case visit attr add_index (Element t a cs) (path @ [Element t a cs]) els of
        Inl e \<Rightarrow> Inl e
      | Inr els' \<Rightarrow> traverse_children attr add_index cs (path @ [Element t a cs]) els')"
| "traverse_children attr add_index [] path els = Inr els"
| "traverse_children attr add_index (child # rest) path els =
     (case traverse attr add_index child path els of
        Inl e \<Rightarrow> Inl e
      | Inr els' \<Rightarrow> traverse_children attr add_index rest path els')"

definition traverse_ios_tree ::
  "(string \<Rightarrow> xml option) \<Rightarrow> string \<Rightarrow> IOSElement list \<Rightarrow> string \<Rightarrow> bool \<Rightarrow> py_error + IOSElement list" where
  "traverse_ios_tree fromstring xml_string els attr add_index =
     (case fromstring xml_string of
        None \<Rightarrow> Inr els
      | Some root_node \<Rightarrow> traverse attr add_index root_node [] els)"

subsection \<open>\<open>get_ios_elements\<close>\<close>

text \<open>
  \<open>merge_lists\<close> is the second half of \<open>get_ios_elements\<close>: the clickable elements are
  copied, then \<open>append_far\<close> runs the loop over the focusable ones.
\<close>

fun append_far :: "IOSElement list \<Rightarrow> IOSElement list \<Rightarrow> IOSElement list \<Rightarrow> py_error + IOSElement list" where
  "append_far clickable_list [] els = Inr els"
| "append_far clickable_list (elem # rest) els =
     (case is_close 10 (center (bbox elem)) clickable_list of
        Inl e \<Rightarrow> Inl e
      | Inr True \<Rightarrow> append_far clickable_list rest els
      | Inr False \<Rightarrow> append_far clickable_list rest (els @ [elem]))"

definition merge_lists :: "IOSElement list \<Rightarrow> IOSElement list \<Rightarrow> py_error + IOSElement list" where
  "merge_lists clickable_list focusable_list = append_far clickable_list focusable_list clickable_list"

definition get_ios_elements :: "(string \<Rightarrow> xml option) \<Rightarrow> string \<Rightarrow> py_error + IOSElement list" where
  "get_ios_elements fromstring xml_string =
     (if xml_string = [] \<or> length (strip xml_string) = 0 then Inr []
      else (case traverse_ios_tree fromstring xml_string [] ''clickable'' True of
              Inl e \<Rightarrow> Inl e
            | Inr clickable_list \<Rightarrow>
                (case traverse_ios_tree fromstring xml_string [] ''focusable'' True of
                   Inl e \<Rightarrow> Inl e
                 | Inr focusable_list \<Rightarrow> merge_lists clickable_list focusable_list)))"

text \<open>
  The invariant the data model asks of a bounding box: the bottom-right corner lies
  strictly to the right of and below the top-left corner.
\<close>

definition valid_bbox :: "box \<Rightarrow> bool" where
  "valid_bbox b = (fst (fst b) < fst (snd b) \<and> snd (fst b) < snd (snd b))"

subsection \<open>\<open>get_page_source\<close>\<close>




















section \<open>actions.py: the coordinate transforms\<close>

definition SCALE_FACTOR :: int where
  "SCALE_FACTOR = 3"

text \<open>
  The source names the two functions \<open>_physical_to_logical\<close> and \<open>_logical_to_physical\<close>.
  \<open>int(x / SCALE_FACTOR)\<close> is a float division followed by a truncation;
  \<open>int(x * SCALE_FACTOR)\<close> is an integer product. The components are computed from
  left to right, so the first one that raises decides the exception.
\<close>

definition physical_to_logical :: "int \<Rightarrow> int \<Rightarrow> py_error + int \<times> int" where
  "physical_to_logical x y =
     (case truediv x SCALE_FACTOR of Inl e \<Rightarrow> Inl e | Inr fx \<Rightarrow>
      (case py_int fx of Inl e \<Rightarrow> Inl e | Inr lx \<Rightarrow>
       (case truediv y SCALE_FACTOR of Inl e \<Rightarrow> Inl e | Inr fy \<Rightarrow>
        (case py_int fy of Inl e \<Rightarrow> Inl e | Inr ly \<Rightarrow> Inr (lx, ly)))))"

definition logical_to_physical :: "int \<Rightarrow> int \<Rightarrow> int \<times> int" where
  "logical_to_physical x y = (x * SCALE_FACTOR, y * SCALE_FACTOR)"

section \<open>executor.py: addressing an element by index\<close>

text \<open>
  The executor's state, as far as \<open>tap_by_index\<close> reads and writes it: the element
  list, the last return value, and the taps handed to the action handler (whose HTTP
  request is outside the model). \<open>assert\<close> raises AssertionError, as Python does unless
  it runs with \<open>-O\<close>.
\<close>

datatype action_result = TapResult int int | TapError int

record executor =
  elem_list :: "IOSElement list"
  current_return :: "action_result option"
  taps :: "(int \<times> int) list"

definition tap :: "executor \<Rightarrow> int \<Rightarrow> int \<Rightarrow> executor \<times> action_result" where
  "tap ex x y =
     (ex\<lparr>current_return := Some (TapResult x y), taps := taps ex @ [(x, y)]\<rparr>, TapResult x y)"

definition tap_by_index :: "executor \<Rightarrow> int \<Rightarrow> executor \<times> (py_error + action_result)" where
  "tap_by_index ex index =
     (if elem_list ex = [] then (ex\<lparr>current_return := Some (TapError index)\<rparr>, Inl ValueError)
      else if \<not> (0 < index \<and> index \<le> int (length (elem_list ex))) then (ex, Inl AssertionError)
      else (case bbox (elem_list ex ! nat (index - 1)) of (top_left, bottom_right) \<Rightarrow>
              (let x_logical = (fst top_left + fst bottom_right) div 2;
                   y_logical = (snd top_left + snd bottom_right) div 2
               in case logical_to_physical x_logical y_logical of (x, y) \<Rightarrow>
                    (case tap ex x y of (ex', r) \<Rightarrow> (ex', Inr r)))))"

section \<open>labeling.py: scale factor of a screenshot\<close>




section \<open>Scale-factor detection\<close>


section \<open>Facts about the string methods\<close>

lemma startswith_subset: "startswith s p \<Longrightarrow> set p \<subseteq> set s"
  by (metis set_take_subset startswith_def)

lemma contains_subset: "contains s sub \<Longrightarrow> set sub \<subseteq> set s"
proof (induction s)
  case Nil
  then show ?case by simp
next
  case (Cons c cs)
  then show ?case using startswith_subset[of "c # cs" sub] by auto
qed

lemma replace_single: "replace s [c] [] = filter (\<lambda>x. x \<noteq> c) s"
  by (induction s) (auto simp: startswith_def)

text \<open>Erasing a word made of characters that a filter drops does not change the filtered string.\<close>

lemma filter_replace_erase:
  "\<forall>x \<in> set old. \<not> P x \<Longrightarrow> filter P (replace s old []) = filter P s"
proof (induction s old "[] :: string" rule: replace.induct)
  case (1 old)
  then show ?case by simp
next
  case (2 c cs old)
  show ?case
  proof (cases "old \<noteq> [] \<and> startswith (c # cs) old")
    case True
    then have eq: "c # cs = old @ drop (length old) (c # cs)"
      by (metis append_take_drop_id startswith_def)
    have "filter P (c # cs) = filter P (drop (length old) (c # cs))"
      using 2(3) by (subst eq) simp
    with True 2 show ?thesis by simp
  next
    case False
    with 2 show ?thesis by auto
  qed
qed

lemma remove_braces_filter:
  "remove_braces s = filter (\<lambda>x. x \<noteq> CHR ''{'' \<and> x \<noteq> CHR ''}'') s"
proof -
  let ?P = "\<lambda>x. x \<noteq> CHR ''{'' \<and> x \<noteq> CHR ''}''"
  have "remove_braces s = filter ?P (replace (replace s ''{{'' []) ''}}'' [])"
    by (simp add: remove_braces_def replace_single conj_commute)
  also have "\<dots> = filter ?P (replace s ''{{'' [])"
    by (rule filter_replace_erase) simp
  also have "\<dots> = filter ?P s"
    by (rule filter_replace_erase) simp
  finally show ?thesis .
qed

lemma split_no_sep: "sep \<notin> set a \<Longrightarrow> split a sep = [a]"
  by (induction a) auto

lemma split_append: "sep \<notin> set a \<Longrightarrow> split (a @ sep # rest) sep = a # split rest sep"
  by (induction a) auto

lemma strip_space: "strip (CHR '' '' # s) = strip s"
  by (simp add: strip_def is_space_def)

lemma dropWhile_id_hd: "xs = [] \<or> \<not> P (hd xs) \<Longrightarrow> dropWhile P xs = xs"
  by (cases xs) auto

lemma dropWhile_hd: "dropWhile P xs = [] \<or> \<not> P (hd (dropWhile P xs))"
  by (metis hd_dropWhile)

lemma strip_strip: "strip (strip s) = strip s"
proof -
  define t where "t = dropWhile is_space s"
  define u where "u = dropWhile is_space (rev t)"
  have t: "t = [] \<or> \<not> is_space (hd t)" unfolding t_def by (rule dropWhile_hd)
  have u: "u = [] \<or> \<not> is_space (hd u)" unfolding u_def by (rule dropWhile_hd)
  have "rev u = [] \<or> \<not> is_space (hd (rev u))"
    by (metis dropWhile_id_hd hd_rev last_appendR last_rev rev.simps(1) t
        takeWhile_dropWhile_id u_def)
  then have "dropWhile is_space (rev u) = rev u" by (rule dropWhile_id_hd)
  moreover have "dropWhile is_space u = u" using u by (rule dropWhile_id_hd)
  ultimately show ?thesis by (simp add: strip_def t_def u_def)
qed

lemma int_float_strip: "int_float (strip s) = int_float s"
  by (simp add: int_float_def py_float_def strip_strip)

section \<open>The bounds decoder\<close>

lemma parts_box_four:
  "parts_box (a # b # c # d # rest) = int_float4 a b c d"
  by (simp add: parts_box_def int_float4_def int_float_strip cong: sum.case_cong)

lemma int_float4_space:
  "int_float4 a (CHR '' '' # b) (CHR '' '' # c) (CHR '' '' # d) = int_float4 a b c d"
proof -
  have "int_float (CHR '' '' # s) = int_float s" for s
    using int_float_strip[of "CHR '' '' # s"] int_float_strip[of s] by (simp add: strip_space)
  then show ?thesis by (simp add: int_float4_def cong: sum.case_cong)
qed

text \<open>
  Both encodings of four tokens decode to whatever the four conversions give, in the
  order \<open>x\<close>, \<open>y\<close>, \<open>width\<close>, \<open>height\<close>; a conversion that raises gives \<open>None\<close>.
\<close>

lemma parse_bounds_flat:
  assumes "plain_token a" "plain_token b" "plain_token c" "plain_token d"
  shows "parse_bounds (a @ '','' @ b @ '','' @ c @ '','' @ d) =
         (case int_float4 a b c d of Inl e \<Rightarrow> None | Inr bx \<Rightarrow> Some bx)"
proof -
  let ?s = "a @ '','' @ b @ '','' @ c @ '','' @ d"
  have nb: "\<not> contains ?s ''{{''"
    using contains_subset[of ?s "''{{''"] assms by (auto simp: plain_token_def)
  have sp: "split ?s CHR '','' = [a, b, c, d]"
    using assms by (simp add: plain_token_def split_append split_no_sep)
  have "parse_bounds_try ?s = map_sum id Some (parts_box [a, b, c, d])"
    unfolding parse_bounds_try_def Let_def sp using nb by simp
  moreover have "?s \<noteq> []" by simp
  ultimately show ?thesis
    unfolding parse_bounds_def by (simp add: parts_box_four split: sum.splits)
qed

lemma parse_bounds_nested:
  assumes "plain_token a" "plain_token b" "plain_token c" "plain_token d"
  shows "parse_bounds (''{{'' @ a @ '', '' @ b @ ''}, {'' @ c @ '', '' @ d @ ''}}'') =
         (case int_float4 a b c d of Inl e \<Rightarrow> None | Inr bx \<Rightarrow> Some bx)"
proof -
  let ?s = "''{{'' @ a @ '', '' @ b @ ''}, {'' @ c @ '', '' @ d @ ''}}''"
  let ?P = "\<lambda>x. x \<noteq> CHR ''{'' \<and> x \<noteq> CHR ''}''"
  have c: "contains ?s ''{{''" by (simp add: startswith_def)
  have f: "filter ?P x = x" if "plain_token x" for x
    using that by (auto simp: plain_token_def intro!: filter_True)
  have rb: "remove_braces ?s = a @ '','' @ (CHR '' '' # b) @ '','' @ (CHR '' '' # c) @ '','' @ (CHR '' '' # d)"
    using assms by (simp add: remove_braces_filter f)
  have sp: "split (remove_braces ?s) CHR '','' = [a, CHR '' '' # b, CHR '' '' # c, CHR '' '' # d]"
    unfolding rb using assms by (simp add: plain_token_def split_append split_no_sep)
  have "parse_bounds_try ?s =
        map_sum id Some (parts_box [a, CHR '' '' # b, CHR '' '' # c, CHR '' '' # d])"
    unfolding parse_bounds_try_def Let_def sp using c by simp
  moreover have "?s \<noteq> []" by simp
  ultimately show ?thesis
    unfolding parse_bounds_def by (simp add: parts_box_four int_float4_space split: sum.splits)
qed

text \<open>
  C5. Four tokens without comma or brace that \<open>int(float(...))\<close> reads as \<open>x\<close>, \<open>y\<close>,
  \<open>width\<close> and \<open>height\<close>: the nested brace form and the flat comma form of the tokens
  both decode to \<open>((x, y), (x + width, y + height))\<close>. In particular
  \<open>{{10, 20}, {30, 40}}\<close> and \<open>10,20,30,40\<close> both decode to \<open>((10, 20), (40, 60))\<close>.
\<close>

theorem parse_bounds_encodings:
  assumes "plain_token a" "plain_token b" "plain_token c" "plain_token d"
    and "int_float a = Inr x" "int_float b = Inr y"
    and "int_float c = Inr width" "int_float d = Inr height"
  shows "parse_bounds (''{{'' @ a @ '', '' @ b @ ''}, {'' @ c @ '', '' @ d @ ''}}'') =
           Some ((x, y), (x + width, y + height)) \<and>
         parse_bounds (a @ '','' @ b @ '','' @ c @ '','' @ d) =
           Some ((x, y), (x + width, y + height)) \<and>
         parse_bounds ''{{10, 20}, {30, 40}}'' = Some ((10, 20), (40, 60)) \<and>
         parse_bounds ''10,20,30,40'' = Some ((10, 20), (40, 60))"
proof -
  have four: "int_float4 a b c d = Inr ((x, y), (x + width, y + height))"
    using assms(5-8) by (simp add: int_float4_def)
  have t: "plain_token ''10''" "plain_token ''20''" "plain_token ''30''" "plain_token ''40''"
    by (simp_all add: plain_token_def)
  have v: "int_float4 ''10'' ''20'' ''30'' ''40'' = Inr ((10, 20), (40, 60))"
    by code_simp
  have "parse_bounds ''{{10, 20}, {30, 40}}'' = Some ((10, 20), (40, 60))"
    using parse_bounds_nested[OF t] by (simp add: v)
  moreover have "parse_bounds ''10,20,30,40'' = Some ((10, 20), (40, 60))"
    using parse_bounds_flat[OF t] by (simp add: v)
  ultimately show ?thesis
    using parse_bounds_nested[OF assms(1-4)] parse_bounds_flat[OF assms(1-4)]
    by (simp add: four)
qed

theorem parse_bounds_encodings_witness:
  "parse_bounds ''{{7, -3.5}, {1e2, 25.9}}'' = Some ((7, - 3), (107, 22)) \<and>
   parse_bounds ''7,-3.5,1e2,25.9'' = Some ((7, - 3), (107, 22))"
proof -
  have t: "plain_token ''7''" "plain_token ''-3.5''" "plain_token ''1e2''" "plain_token ''25.9''"
    by (simp_all add: plain_token_def)
  have v: "int_float ''7'' = Inr 7" "int_float ''-3.5'' = Inr (- 3)"
    "int_float ''1e2'' = Inr 100" "int_float ''25.9'' = Inr 25"
    by code_simp+
  from parse_bounds_encodings[OF t v] show ?thesis by simp
qed

section \<open>Addressing an element by index\<close>

text \<open>
  C3. With a non-empty element list of length \<open>n\<close>, index 0, index \<open>n + 1\<close> and every
  other index outside \<open>1..n\<close> raise AssertionError and leave the executor as it was: no
  tap is issued, so the index is not clamped. Index \<open>n\<close> succeeds: the tap goes to
  \<open>logical_to_physical\<close> of the centre of the bounding box of the \<open>n\<close>-th element, which
  is three times that centre, and this is what the call returns.
\<close>

theorem tap_by_index_addressing:
  assumes "elem_list ex \<noteq> []"
  shows "tap_by_index ex 0 = (ex, Inl AssertionError) \<and>
         tap_by_index ex (int (length (elem_list ex)) + 1) = (ex, Inl AssertionError) \<and>
         (\<forall>i. i < 1 \<or> int (length (elem_list ex)) < i \<longrightarrow>
              tap_by_index ex i = (ex, Inl AssertionError)) \<and>
         (let c = center (bbox (elem_list ex ! (length (elem_list ex) - 1)));
              p = logical_to_physical (fst c) (snd c)
          in p = (3 * fst c, 3 * snd c) \<and>
             tap_by_index ex (int (length (elem_list ex))) =
               (ex\<lparr>current_return := Some (TapResult (fst p) (snd p)),
                   taps := taps ex @ [p]\<rparr>,
                Inr (TapResult (fst p) (snd p))))"
proof -
  have out: "tap_by_index ex i = (ex, Inl AssertionError)"
    if "i < 1 \<or> int (length (elem_list ex)) < i" for i
    using that assms by (auto simp: tap_by_index_def)
  have pos: "0 < length (elem_list ex)" using assms by simp
  then have idx: "nat (int (length (elem_list ex)) - 1) = length (elem_list ex) - 1"
    by simp
  have last: "tap_by_index ex (int (length (elem_list ex))) =
      (let c = center (bbox (elem_list ex ! (length (elem_list ex) - 1)));
           p = logical_to_physical (fst c) (snd c)
       in (ex\<lparr>current_return := Some (TapResult (fst p) (snd p)), taps := taps ex @ [p]\<rparr>,
           Inr (TapResult (fst p) (snd p))))"
    using assms pos
    by (simp add: tap_by_index_def idx tap_def center_def logical_to_physical_def Let_def
        split: prod.splits)
  show ?thesis
    using out[of 0] out[of "int (length (elem_list ex)) + 1"] out last
    by (simp add: Let_def logical_to_physical_def SCALE_FACTOR_def mult.commute)
qed

theorem tap_by_index_addressing_witness:
  "tap_by_index
     \<lparr>elem_list =
        [\<lparr>uid = ''a'', bbox = ((0, 0), (10, 10)), attrib = ''clickable'', element_type = ''B'',
          name = None, label = None, elem_identifier = None\<rparr>,
         \<lparr>uid = ''b'', bbox = ((100, 100), (200, 141)), attrib = ''clickable'',
          element_type = ''B'', name = None, label = None, elem_identifier = None\<rparr>],
      current_return = None, taps = []\<rparr> 3
   = (\<lparr>elem_list =
        [\<lparr>uid = ''a'', bbox = ((0, 0), (10, 10)), attrib = ''clickable'', element_type = ''B'',
          name = None, label = None, elem_identifier = None\<rparr>,
         \<lparr>uid = ''b'', bbox = ((100, 100), (200, 141)), attrib = ''clickable'',
          element_type = ''B'', name = None, label = None, elem_identifier = None\<rparr>],
      current_return = None, taps = []\<rparr>, Inl AssertionError) \<and>
   snd (tap_by_index
     \<lparr>elem_list =
        [\<lparr>uid = ''a'', bbox = ((0, 0), (10, 10)), attrib = ''clickable'', element_type = ''B'',
          name = None, label = None, elem_identifier = None\<rparr>,
         \<lparr>uid = ''b'', bbox = ((100, 100), (200, 141)), attrib = ''clickable'',
          element_type = ''B'', name = None, label = None, elem_identifier = None\<rparr>],
      current_return = None, taps = []\<rparr> 2) = Inr (TapResult 450 360)"
proof -
  let ?ex = "\<lparr>elem_list =
        [\<lparr>uid = ''a'', bbox = ((0, 0), (10, 10)), attrib = ''clickable'', element_type = ''B'',
          name = None, label = None, elem_identifier = None\<rparr>,
         \<lparr>uid = ''b'', bbox = ((100::int, 100::int), (200::int, 141::int)), attrib = ''clickable'',
          element_type = ''B'', name = None, label = None, elem_identifier = None\<rparr>],
      current_return = None, taps = []\<rparr>"
  have ne: "elem_list ?ex \<noteq> []" by simp
  from tap_by_index_addressing[OF ne] show ?thesis
    by (simp add: Let_def center_def logical_to_physical_def SCALE_FACTOR_def)
qed

section \<open>Facts about the distance test and the traversal\<close>

lemma overflow_bound_pos: "(0::int) < 2 ^ 1024 - 2 ^ 970"
proof -
  have "(2::int) ^ 970 < 2 ^ 1024" by (rule power_strict_increasing) simp_all
  then show ?thesis by simp
qed

lemma dist_le_False_iff:
  "dist_le c e r = Inr False \<longleftrightarrow> sq_dist c e < 2 ^ 1024 - 2 ^ 970 \<and> r * r < sq_dist c e"
  by (auto simp: dist_le_def)

lemma dist_le_True_iff:
  "dist_le c e r = Inr True \<longleftrightarrow> sq_dist c e < 2 ^ 1024 - 2 ^ 970 \<and> sq_dist c e \<le> r * r"
  by (auto simp: dist_le_def)

lemma dist_le_self: "0 \<le> r * r \<Longrightarrow> dist_le c c r = Inr True"
  using overflow_bound_pos by (simp add: dist_le_def sq_dist_def)

lemma is_close_False_iff:
  "is_close r c es = Inr False \<longleftrightarrow> (\<forall>e \<in> set es. dist_le c (center (bbox e)) r = Inr False)"
  by (induction es) (auto split: sum.splits bool.splits)

lemma is_close_True_D:
  "is_close r c es = Inr True \<Longrightarrow> \<exists>e \<in> set es. dist_le c (center (bbox e)) r = Inr True"
proof (induction es)
  case Nil
  then show ?case by simp
next
  case (Cons e es)
  show ?case
  proof (cases "dist_le c (center (bbox e)) r")
    case (Inl err)
    with Cons.prems show ?thesis by simp
  next
    case (Inr b)
    with Cons show ?thesis by (cases b) auto
  qed
qed

lemma is_close_append:
  "is_close r c (xs @ ys) =
     (case is_close r c xs of Inl e \<Rightarrow> Inl e | Inr True \<Rightarrow> Inr True | Inr False \<Rightarrow> is_close r c ys)"
  by (induction xs) (auto split: sum.splits bool.splits)

text \<open>A scan that finds nothing within 5 does not overflow, so the scan with 10 returns.\<close>

lemma is_close_5_10:
  "is_close 5 c xs = Inr False \<Longrightarrow> \<exists>b. is_close 10 c xs = Inr b"
proof (induction xs)
  case Nil
  then show ?case by auto
next
  case (Cons e es)
  from Cons.prems have d: "dist_le c (center (bbox e)) 5 = Inr False"
    and r: "is_close 5 c es = Inr False"
    by (auto split: sum.splits bool.splits)
  from d have "\<exists>b. dist_le c (center (bbox e)) 10 = Inr b"
    by (auto simp: dist_le_def split: if_splits)
  with Cons.IH[OF r] show ?case by (auto split: sum.splits bool.splits)
qed

text \<open>What a visit can do to the list: leave it, or append one element for the node.\<close>

lemma visit_Inr_cases:
  assumes "visit attr add_index node path els = Inr els'"
  shows "els' = els \<or>
         (\<exists>b u. is_interactive_element node = Inr True \<and>
                get_element_bounds node = Inr (Some b) \<and>
                is_close 5 (center b) els = Inr False \<and>
                els' = els @ [\<lparr>uid = u, bbox = b, attrib = attr, element_type = tag node,
                               name = get_attr node ''name'', label = get_attr node ''label'',
                               elem_identifier = get_attr node ''identifier''\<rparr>])"
proof (cases "is_interactive_element node")
  case (Inl e)
  with assms show ?thesis by (simp add: visit_def)
next
  case (Inr i)
  show ?thesis
  proof (cases i)
    case False
    with Inr assms show ?thesis by (simp add: visit_def)
  next
    case True
    with Inr have int: "is_interactive_element node = Inr True" by simp
    show ?thesis
    proof (cases "get_element_bounds node")
      case (Inl e)
      with int assms show ?thesis by (simp add: visit_def)
    next
      case (Inr ob)
      show ?thesis
      proof (cases ob)
        case None
        with Inr int assms show ?thesis by (simp add: visit_def)
      next
        case (Some b)
        with Inr have bnd: "get_element_bounds node = Inr (Some b)" by simp
        show ?thesis
        proof (cases "is_close 5 (center b) els")
          case (Inl e)
          with int bnd assms show ?thesis by (simp add: visit_def)
        next
          case (Inr cl)
          show ?thesis
          proof (cases cl)
            case True
            with Inr int bnd assms show ?thesis by (simp add: visit_def)
          next
            case False
            with Inr have far: "is_close 5 (center b) els = Inr False" by simp
            show ?thesis
            proof (cases "get_element_id node")
              case (Inl e)
              with int bnd far assms show ?thesis by (simp add: visit_def)
            next
              case (Inr elem_id)
              with int bnd far assms show ?thesis
                by (auto simp: visit_def split: sum.splits if_splits)
            qed
          qed
        qed
      qed
    qed
  qed
qed

text \<open>A property of the list that every visit keeps is kept by the whole traversal.\<close>

lemma traverse_invariant_aux:
  "(\<forall>n p xs ys. I xs \<longrightarrow> visit attr add_index n p xs = Inr ys \<longrightarrow> I ys) \<longrightarrow>
     (\<forall>els'. traverse attr add_index node path els = Inr els' \<longrightarrow> I els \<longrightarrow> I els')"
  "(\<forall>n p xs ys. I xs \<longrightarrow> visit attr add_index n p xs = Inr ys \<longrightarrow> I ys) \<longrightarrow>
     (\<forall>els'. traverse_children attr add_index cs path els = Inr els' \<longrightarrow> I els \<longrightarrow> I els')"
proof (induction attr add_index node path els and attr add_index cs path els
       rule: traverse_traverse_children.induct)
  case (1 attr add_index t a cs path els)
  show ?case
  proof (intro allI impI)
    fix els'
    assume step: "\<forall>n p xs ys. I xs \<longrightarrow> visit attr add_index n p xs = Inr ys \<longrightarrow> I ys"
      and r: "traverse attr add_index (Element t a cs) path els = Inr els'" and i: "I els"
    then obtain mid where v: "visit attr add_index (Element t a cs) (path @ [Element t a cs]) els = Inr mid"
      and c: "traverse_children attr add_index cs (path @ [Element t a cs]) mid = Inr els'"
      by (auto split: sum.splits)
    from step i v have "I mid" by blast
    with 1[OF v] step c show "I els'" by blast
  qed
next
  case (2 attr add_index path els)
  then show ?case by simp
next
  case (3 attr add_index child rest path els)
  show ?case
  proof (intro allI impI)
    fix els'
    assume step: "\<forall>n p xs ys. I xs \<longrightarrow> visit attr add_index n p xs = Inr ys \<longrightarrow> I ys"
      and r: "traverse_children attr add_index (child # rest) path els = Inr els'" and i: "I els"
    then obtain mid where v: "traverse attr add_index child path els = Inr mid"
      and c: "traverse_children attr add_index rest path mid = Inr els'"
      by (auto split: sum.splits)
    from 3(1) step v i have "I mid" by blast
    with 3(2)[OF v] step c show "I els'" by blast
  qed
qed

lemma traverse_invariant:
  assumes "\<And>n p xs ys. I xs \<Longrightarrow> visit attr add_index n p xs = Inr ys \<Longrightarrow> I ys"
    and "traverse attr add_index node path els = Inr els'" and "I els"
  shows "I els'"
  using traverse_invariant_aux(1)[of I attr add_index node path els] assms by blast

lemma traverse_ios_tree_invariant:
  assumes step: "\<And>n p xs ys. I xs \<Longrightarrow> visit attr add_index n p xs = Inr ys \<Longrightarrow> I ys"
    and "traverse_ios_tree fromstring xml_string els attr add_index = Inr els'" and "I els"
  shows "I els'"
proof (cases "fromstring xml_string")
  case None
  with assms(2,3) show ?thesis by (simp add: traverse_ios_tree_def)
next
  case (Some root_node)
  with assms(2) have "traverse attr add_index root_node [] els = Inr els'"
    by (simp add: traverse_ios_tree_def)
  then have t: "traverse attr add_index root_node [] els = Inr els'" .
  show ?thesis
  proof (rule traverse_invariant[where I = I and attr = attr and add_index = add_index])
    show "\<And>n p xs ys. I xs \<Longrightarrow> visit attr add_index n p xs = Inr ys \<Longrightarrow> I ys"
      by (rule step)
    show "traverse attr add_index root_node [] els = Inr els'" by (rule t)
    show "I els" by (rule assms(3))
  qed
qed

lemma interactive_positive:
  assumes "is_interactive_element node = Inr True"
    and "get_element_bounds node = Inr (Some b)"
  shows "fst (fst b) < fst (snd b) \<and> snd (fst b) < snd (snd b)"
  using assms unfolding is_interactive_element_def
  by (auto simp: Let_def split: if_splits sum.splits option.splits prod.splits)

section \<open>The merge of the two passes\<close>

text \<open>The merge loop appends exactly the focusable elements that are far from every clickable one.\<close>

lemma append_far_filter:
  "append_far clickable_list focusable_list els = Inr r \<Longrightarrow>
   r = els @ filter (\<lambda>f. \<forall>e \<in> set clickable_list.
                       100 < sq_dist (center (bbox f)) (center (bbox e))) focusable_list"
proof (induction focusable_list arbitrary: els)
  case Nil
  then show ?case by simp
next
  case (Cons elem rest)
  show ?case
  proof (cases "is_close 10 (center (bbox elem)) clickable_list")
    case (Inl e)
    with Cons.prems show ?thesis by simp
  next
    case (Inr cl)
    show ?thesis
    proof (cases cl)
      case True
      with Inr have "is_close 10 (center (bbox elem)) clickable_list = Inr True" by simp
      from is_close_True_D[OF this] have
        "\<not> (\<forall>e \<in> set clickable_list. 100 < sq_dist (center (bbox elem)) (center (bbox e)))"
        by (force simp: dist_le_True_iff not_less)
      moreover from Cons.prems Inr True have "append_far clickable_list rest els = Inr r" by simp
      ultimately show ?thesis using Cons.IH[of els] by auto
    next
      case False
      with Inr have f: "is_close 10 (center (bbox elem)) clickable_list = Inr False" by simp
      then have "\<forall>e \<in> set clickable_list. 100 < sq_dist (center (bbox elem)) (center (bbox e))"
        by (auto simp: is_close_False_iff dist_le_False_iff)
      moreover from Cons.prems f have "append_far clickable_list rest (els @ [elem]) = Inr r"
        by simp
      ultimately show ?thesis using Cons.IH[of "els @ [elem]"] by auto
    qed
  qed
qed

section \<open>Degenerate boxes\<close>

lemma visit_valid_bbox:
  assumes "\<forall>e \<in> set xs. valid_bbox (bbox e)" and "visit attr add_index n p xs = Inr ys"
  shows "\<forall>e \<in> set ys. valid_bbox (bbox e)"
  using visit_Inr_cases[OF assms(2)] assms(1) interactive_positive[of n]
  by (auto simp: valid_bbox_def)

lemma traverse_ios_tree_valid_bbox:
  assumes "traverse_ios_tree fromstring xml_string [] attr add_index = Inr els"
  shows "\<forall>e \<in> set els. valid_bbox (bbox e)"
proof (rule traverse_ios_tree_invariant[where I = "\<lambda>xs. \<forall>e \<in> set xs. valid_bbox (bbox e)"
        and attr = attr and add_index = add_index])
  show "\<And>n p xs ys. \<forall>e \<in> set xs. valid_bbox (bbox e) \<Longrightarrow> visit attr add_index n p xs = Inr ys
          \<Longrightarrow> \<forall>e \<in> set ys. valid_bbox (bbox e)"
    by (rule visit_valid_bbox)
  show "traverse_ios_tree fromstring xml_string [] attr add_index = Inr els" by (rule assms)
  show "\<forall>e \<in> set []. valid_bbox (bbox e)" by simp
qed

lemma get_ios_elements_valid_bbox:
  assumes "get_ios_elements fromstring xml_string = Inr els"
  shows "\<forall>e \<in> set els. valid_bbox (bbox e)"
proof (cases "xml_string = [] \<or> length (strip xml_string) = 0")
  case True
  with assms show ?thesis by (auto simp: get_ios_elements_def)
next
  case False
  with assms obtain cl fl where
    c: "traverse_ios_tree fromstring xml_string [] ''clickable'' True = Inr cl" and
    f: "traverse_ios_tree fromstring xml_string [] ''focusable'' True = Inr fl" and
    m: "merge_lists cl fl = Inr els"
    by (auto simp: get_ios_elements_def split: sum.splits)
  from m have "set els \<subseteq> set cl \<union> set fl"
    using append_far_filter[of cl fl cl els] by (auto simp: merge_lists_def)
  with traverse_ios_tree_valid_bbox[OF c] traverse_ios_tree_valid_bbox[OF f]
  show ?thesis by blast
qed

lemma nonpositive_not_interactive:
  assumes "get_element_bounds node = Inr (Some ((x1, y1), (x2, y2)))"
    and "x2 - x1 \<le> 0 \<or> y2 - y1 \<le> 0"
  shows "is_interactive_element node = Inr False"
  using assms by (auto simp: is_interactive_element_def Let_def)

text \<open>
  C6. Every element of the list that \<open>get_ios_elements\<close> returns, and every candidate
  of a pass of \<open>traverse_ios_tree\<close> started on the empty list, has a bounding box whose
  bottom-right corner is strictly right of and below its top-left corner; so the box
  \<open>((0, 0), (0, 0))\<close> never appears. A node whose resolved box has width or height at
  most 0 is classified as not interactive, and visiting it leaves the list as it was.
\<close>

theorem degenerate_boxes_rejected:
  "(get_ios_elements fromstring xml_string = Inr els \<longrightarrow>
      (\<forall>e \<in> set els. valid_bbox (bbox e) \<and> bbox e \<noteq> ((0, 0), (0, 0)))) \<and>
   (traverse_ios_tree fromstring xml_string [] attr add_index = Inr cands \<longrightarrow>
      (\<forall>e \<in> set cands. valid_bbox (bbox e) \<and> bbox e \<noteq> ((0, 0), (0, 0)))) \<and>
   (get_element_bounds node = Inr (Some ((x1, y1), (x2, y2))) \<and> (x2 - x1 \<le> 0 \<or> y2 - y1 \<le> 0) \<longrightarrow>
      is_interactive_element node = Inr False \<and> visit attr add_index node path acc = Inr acc)"
proof -
  have z: "b \<noteq> ((0, 0), (0, 0))" if "valid_bbox b" for b
    using that by (auto simp: valid_bbox_def)
  have "visit attr add_index node path acc = Inr acc" if "is_interactive_element node = Inr False"
    using that by (simp add: visit_def)
  then show ?thesis
    using get_ios_elements_valid_bbox[of fromstring xml_string els]
      traverse_ios_tree_valid_bbox[of fromstring xml_string attr add_index cands]
      nonpositive_not_interactive[of node x1 y1 x2 y2] z
    by blast
qed

theorem degenerate_boxes_rejected_witness:
  "get_ios_elements
     (\<lambda>s. Some (Element ''XCUIElementTypeApplication'' []
        [Element ''XCUIElementTypeButton''
           [(''x'', ''100''), (''y'', ''100''), (''width'', ''100''), (''height'', ''40'')] [],
         Element ''XCUIElementTypeButton''
           [(''x'', ''0''), (''y'', ''0''), (''width'', ''0''), (''height'', ''0'')] [],
         Element ''XCUIElementTypeCell''
           [(''x'', ''10''), (''y'', ''300''), (''width'', ''0''), (''height'', ''44'')] []]))
     ''<doc/>''
   = Inr [\<lparr>uid = ''XCUIElementTypeApplication_0_0_XCUIElementTypeButton_100_40_0'',
           bbox = ((100, 100), (200, 140)), attrib = ''clickable'',
           element_type = ''XCUIElementTypeButton'', name = None, label = None,
           elem_identifier = None\<rparr>] \<and>
   valid_bbox ((100, 100), (200, 140)) \<and>
   get_element_bounds (Element ''XCUIElementTypeCell''
           [(''x'', ''10''), (''y'', ''300''), (''width'', ''0''), (''height'', ''44'')] [])
     = Inr (Some ((10, 300), (10, 344))) \<and>
   visit ''clickable'' True (Element ''XCUIElementTypeCell''
           [(''x'', ''10''), (''y'', ''300''), (''width'', ''0''), (''height'', ''44'')] []) [] []
     = Inr []"
proof -
  let ?cell = "Element ''XCUIElementTypeCell''
           [(''x'', ''10''), (''y'', ''300''), (''width'', ''0''), (''height'', ''44'')] []"
  let ?doc = "Element ''XCUIElementTypeApplication'' []
        [Element ''XCUIElementTypeButton''
           [(''x'', ''100''), (''y'', ''100''), (''width'', ''100''), (''height'', ''40'')] [],
         Element ''XCUIElementTypeButton''
           [(''x'', ''0''), (''y'', ''0''), (''width'', ''0''), (''height'', ''0'')] [],
         ?cell]"
  let ?e = "\<lparr>uid = ''XCUIElementTypeApplication_0_0_XCUIElementTypeButton_100_40_0'',
           bbox = ((100, 100), (200, 140)), attrib = ''clickable'',
           element_type = ''XCUIElementTypeButton'', name = None, label = None,
           elem_identifier = None\<rparr>"
  have run: "get_ios_elements (\<lambda>s. Some ?doc) ''<doc/>'' = Inr [?e]"
    by code_simp
  have bnd: "get_element_bounds ?cell = Inr (Some ((10, 300), (10, 344)))"
    by code_simp
  from degenerate_boxes_rejected[of "\<lambda>s. Some ?doc" "''<doc/>''" "[?e]" "''clickable''" True "[]"
      ?cell 10 300 10 344 "[]" "[]"] run bnd
  show ?thesis by simp
qed

section \<open>Suppression of near duplicates\<close>


text \<open>
  In a list built by a pass, every element was accepted with all earlier centres
  farther than 5 away, and none of those distance tests overflowed.
\<close>

lemma visit_separated:
  assumes "\<forall>j < length xs. \<forall>i < j.
             dist_le (center (bbox (xs ! j))) (center (bbox (xs ! i))) 5 = Inr False"
    and "visit attr add_index n p xs = Inr ys"
  shows "\<forall>j < length ys. \<forall>i < j.
             dist_le (center (bbox (ys ! j))) (center (bbox (ys ! i))) 5 = Inr False"
  using visit_Inr_cases[OF assms(2)]
proof
  assume "ys = xs"
  with assms(1) show ?thesis by simp
next
  assume "\<exists>b u. is_interactive_element n = Inr True \<and>
                get_element_bounds n = Inr (Some b) \<and>
                is_close 5 (center b) xs = Inr False \<and>
                ys = xs @ [\<lparr>uid = u, bbox = b, attrib = attr, element_type = tag n,
                             name = get_attr n ''name'', label = get_attr n ''label'',
                             elem_identifier = get_attr n ''identifier''\<rparr>]"
  then obtain b e where far: "is_close 5 (center b) xs = Inr False"
    and ys: "ys = xs @ [e]" and be: "bbox e = b"
    by auto
  show ?thesis
  proof (intro allI impI)
    fix j i assume j: "j < length ys" and i: "i < j"
    show "dist_le (center (bbox (ys ! j))) (center (bbox (ys ! i))) 5 = Inr False"
    proof (cases "j < length xs")
      case True
      with i assms(1) ys show ?thesis by (simp add: nth_append)
    next
      case False
      with j ys have jl: "j = length xs" by simp
      with i have "xs ! i \<in> set xs" by simp
      with far have "dist_le (center b) (center (bbox (xs ! i))) 5 = Inr False"
        by (simp add: is_close_False_iff)
      with jl i ys be show ?thesis by (simp add: nth_append)
    qed
  qed
qed

lemma traverse_ios_tree_separated:
  assumes "traverse_ios_tree fromstring xml_string [] attr add_index = Inr els"
  shows "\<forall>j < length els. \<forall>i < j.
           dist_le (center (bbox (els ! j))) (center (bbox (els ! i))) 5 = Inr False"
proof (rule traverse_ios_tree_invariant[where
        I = "\<lambda>xs. \<forall>j < length xs. \<forall>i < j.
               dist_le (center (bbox (xs ! j))) (center (bbox (xs ! i))) 5 = Inr False"
        and attr = attr and add_index = add_index])
  show "\<And>n p xs ys.
          \<forall>j < length xs. \<forall>i < j.
             dist_le (center (bbox (xs ! j))) (center (bbox (xs ! i))) 5 = Inr False \<Longrightarrow>
          visit attr add_index n p xs = Inr ys \<Longrightarrow>
          \<forall>j < length ys. \<forall>i < j.
             dist_le (center (bbox (ys ! j))) (center (bbox (ys ! i))) 5 = Inr False"
    by (rule visit_separated)
  show "traverse_ios_tree fromstring xml_string [] attr add_index = Inr els" by (rule assms)
  show "\<forall>j < length []. \<forall>i < j.
          dist_le (center (bbox ([] ! j))) (center (bbox ([] ! i))) 5 = Inr False"
    by simp
qed



section \<open>The two passes of \<open>get_ios_elements\<close>\<close>

text \<open>
  The passes differ only in the tag they write: the focusable pass builds the list of
  the clickable pass with \<open>attrib\<close> replaced.
\<close>

lemma is_close_retag:
  "is_close r c (map (\<lambda>e. e\<lparr>attrib := a2\<rparr>) xs) = is_close r c xs"
  by (induction xs) (auto split: sum.splits bool.splits)

lemma visit_retag:
  "visit a2 add_index n p (map (\<lambda>e. e\<lparr>attrib := a2\<rparr>) xs) =
   map_sum id (map (\<lambda>e. e\<lparr>attrib := a2\<rparr>)) (visit a1 add_index n p xs)"
proof (cases "is_interactive_element n")
  case (Inl e)
  then show ?thesis by (simp add: visit_def)
next
  case (Inr i)
  show ?thesis
  proof (cases i)
    case False
    with Inr show ?thesis by (simp add: visit_def)
  next
    case True
    with Inr have int: "is_interactive_element n = Inr True" by simp
    show ?thesis
    proof (cases "get_element_bounds n")
      case (Inl e)
      with int show ?thesis by (simp add: visit_def)
    next
      case (Inr ob)
      show ?thesis
      proof (cases ob)
        case None
        with Inr int show ?thesis by (simp add: visit_def)
      next
        case (Some b)
        with Inr have bnd: "get_element_bounds n = Inr (Some b)" by simp
        show ?thesis
        proof (cases "is_close 5 (center b) xs")
          case (Inl e)
          with int bnd show ?thesis by (simp add: visit_def is_close_retag)
        next
          case (Inr cl)
          show ?thesis
          proof (cases cl)
            case True
            with Inr int bnd show ?thesis by (simp add: visit_def is_close_retag)
          next
            case False
            with Inr have far: "is_close 5 (center b) xs = Inr False" by simp
            show ?thesis
            proof (cases "get_element_id n")
              case (Inl e)
              with int bnd far show ?thesis by (simp add: visit_def is_close_retag)
            next
              case (Inr elem_id)
              with int bnd far show ?thesis
                by (auto simp: visit_def is_close_retag split: sum.splits if_splits)
            qed
          qed
        qed
      qed
    qed
  qed
qed

lemma traverse_retag:
  "traverse a2 add_index node path (map (\<lambda>e. e\<lparr>attrib := a2\<rparr>) els) =
     map_sum id (map (\<lambda>e. e\<lparr>attrib := a2\<rparr>)) (traverse a1 add_index node path els)"
  "traverse_children a2 add_index cs path (map (\<lambda>e. e\<lparr>attrib := a2\<rparr>) els) =
     map_sum id (map (\<lambda>e. e\<lparr>attrib := a2\<rparr>)) (traverse_children a1 add_index cs path els)"
proof (induction a1 add_index node path els and a1 add_index cs path els
       rule: traverse_traverse_children.induct)
  case (1 a1 add_index t a cs path els)
  show ?case
  proof (cases "visit a1 add_index (Element t a cs) (path @ [Element t a cs]) els")
    case (Inl e)
    then show ?thesis
      using visit_retag[of a2 add_index "Element t a cs" "path @ [Element t a cs]" els a1]
      by simp
  next
    case (Inr mid)
    then show ?thesis
      using visit_retag[of a2 add_index "Element t a cs" "path @ [Element t a cs]" els a1]
        1[OF Inr]
      by simp
  qed
next
  case (2 a1 add_index path els)
  show ?case by simp
next
  case (3 a1 add_index child rest path els)
  show ?case
  proof (cases "traverse a1 add_index child path els")
    case (Inl e)
    with 3(1) show ?thesis by simp
  next
    case (Inr mid)
    with 3(1) 3(2)[OF Inr] show ?thesis by simp
  qed
qed

lemma traverse_ios_tree_retag:
  "traverse_ios_tree fromstring xml_string [] a2 add_index =
   map_sum id (map (\<lambda>e. e\<lparr>attrib := a2\<rparr>)) (traverse_ios_tree fromstring xml_string [] a1 add_index)"
  using traverse_retag(1)[of a2 add_index _ "[]" "[]" a1]
  by (simp add: traverse_ios_tree_def split: option.splits)

text \<open>Every element of a pass carries the tag of the pass.\<close>

lemma traverse_ios_tree_attrib:
  assumes "traverse_ios_tree fromstring xml_string [] attr add_index = Inr els"
  shows "\<forall>e \<in> set els. attrib e = attr"
proof (rule traverse_ios_tree_invariant[where I = "\<lambda>xs. \<forall>e \<in> set xs. attrib e = attr"
        and attr = attr and add_index = add_index])
  show "\<And>n p xs ys. \<forall>e \<in> set xs. attrib e = attr \<Longrightarrow> visit attr add_index n p xs = Inr ys
          \<Longrightarrow> \<forall>e \<in> set ys. attrib e = attr"
    using visit_Inr_cases by fastforce
  show "traverse_ios_tree fromstring xml_string [] attr add_index = Inr els" by (rule assms)
  show "\<forall>e \<in> set []. attrib e = attr" by simp
qed

text \<open>A focusable list whose every element is within 10 of a clickable one adds nothing.\<close>

lemma append_far_all_close:
  "\<forall>x \<in> set fl. is_close 10 (center (bbox x)) cl = Inr True \<Longrightarrow> append_far cl fl els = Inr els"
  by (induction fl) auto

lemma separated_self_close:
  assumes sep: "\<forall>j < length cl. \<forall>i < j.
             dist_le (center (bbox (cl ! j))) (center (bbox (cl ! i))) 5 = Inr False"
    and j: "j < length cl"
  shows "is_close 10 (center (bbox (cl ! j))) cl = Inr True"
proof -
  let ?c = "center (bbox (cl ! j))"
  have split: "cl = take j cl @ cl ! j # drop (Suc j) cl"
    using j by (rule id_take_nth_drop)
  have "\<forall>e \<in> set (take j cl). dist_le ?c (center (bbox e)) 5 = Inr False"
  proof
    fix e assume "e \<in> set (take j cl)"
    then obtain i where "i < j" "e = cl ! i"
      using j by (auto simp: in_set_conv_nth)
    with sep j show "dist_le ?c (center (bbox e)) 5 = Inr False" by simp
  qed
  then have "is_close 5 ?c (take j cl) = Inr False" by (simp add: is_close_False_iff)
  from is_close_5_10[OF this] obtain b where b: "is_close 10 ?c (take j cl) = Inr b" ..
  have self: "is_close 10 ?c (cl ! j # drop (Suc j) cl) = Inr True"
    by (simp add: dist_le_self)
  have "is_close 10 ?c (take j cl @ cl ! j # drop (Suc j) cl) = Inr True"
    unfolding is_close_append using b self by (cases b) simp_all
  with split show ?thesis by simp
qed

lemma merge_lists_retag:
  assumes "\<forall>j < length cl. \<forall>i < j.
             dist_le (center (bbox (cl ! j))) (center (bbox (cl ! i))) 5 = Inr False"
  shows "merge_lists cl (map (\<lambda>e. e\<lparr>attrib := a2\<rparr>) cl) = Inr cl"
proof -
  have "\<forall>x \<in> set (map (\<lambda>e. e\<lparr>attrib := a2\<rparr>) cl). is_close 10 (center (bbox x)) cl = Inr True"
    using separated_self_close[OF assms] by (auto simp: in_set_conv_nth)
  then show ?thesis unfolding merge_lists_def by (rule append_far_all_close)
qed

text \<open>
  C2. Whatever the parser makes of the markup, the focusable pass yields the
  clickable list with \<open>attrib\<close> set to \<open>focusable\<close>, box by box the same; the merge then
  drops every focusable element, and a call that returns on non-blank markup returns
  exactly the clickable list. Every element of a returned list carries the attrib
  \<open>clickable\<close>; none carries \<open>focusable\<close>.
\<close>

theorem merged_elements_all_clickable:
  "traverse_ios_tree fromstring xml_string [] ''focusable'' True =
     map_sum id (map (\<lambda>e. e\<lparr>attrib := ''focusable''\<rparr>))
       (traverse_ios_tree fromstring xml_string [] ''clickable'' True) \<and>
   (get_ios_elements fromstring xml_string = Inr els \<longrightarrow>
      (\<forall>e \<in> set els. attrib e = ''clickable'' \<and> attrib e \<noteq> ''focusable'') \<and>
      (xml_string = [] \<or> strip xml_string = [] \<or>
       traverse_ios_tree fromstring xml_string [] ''clickable'' True = Inr els))"
proof (intro conjI impI)
  show retag: "traverse_ios_tree fromstring xml_string [] ''focusable'' True =
     map_sum id (map (\<lambda>e. e\<lparr>attrib := ''focusable''\<rparr>))
       (traverse_ios_tree fromstring xml_string [] ''clickable'' True)"
    by (rule traverse_ios_tree_retag)
  assume g: "get_ios_elements fromstring xml_string = Inr els"
  have pass: "xml_string = [] \<or> strip xml_string = [] \<or>
       traverse_ios_tree fromstring xml_string [] ''clickable'' True = Inr els"
  proof (cases "xml_string = [] \<or> length (strip xml_string) = 0")
    case True
    then show ?thesis by auto
  next
    case False
    with g obtain cl where
      c: "traverse_ios_tree fromstring xml_string [] ''clickable'' True = Inr cl" and
      m: "merge_lists cl (map (\<lambda>e. e\<lparr>attrib := ''focusable''\<rparr>) cl) = Inr els"
      by (auto simp: get_ios_elements_def retag split: sum.splits)
    from merge_lists_retag[OF traverse_ios_tree_separated[OF c]] m have "els = cl" by simp
    with c show ?thesis by simp
  qed
  then show "xml_string = [] \<or> strip xml_string = [] \<or>
       traverse_ios_tree fromstring xml_string [] ''clickable'' True = Inr els" .
  show "\<forall>e \<in> set els. attrib e = ''clickable'' \<and> attrib e \<noteq> ''focusable''"
  proof (cases "xml_string = [] \<or> length (strip xml_string) = 0")
    case True
    with g show ?thesis by (auto simp: get_ios_elements_def)
  next
    case False
    with pass have "traverse_ios_tree fromstring xml_string [] ''clickable'' True = Inr els"
      by auto
    from traverse_ios_tree_attrib[OF this] show ?thesis by auto
  qed
qed

theorem merged_elements_all_clickable_witness:
  "get_ios_elements
     (\<lambda>s. Some (Element ''XCUIElementTypeApplication'' []
        [Element ''XCUIElementTypeButton'' [(''bounds'', ''{{100, 100}, {100, 40}}'')] [],
         Element ''XCUIElementTypeTextField'' [(''bounds'', ''{{102, 102}, {96, 36}}'')] [],
         Element ''XCUIElementTypeSearchField'' [(''bounds'', ''{{0, 300}, {50, 50}}'')] []]))
     ''<doc/>''
   = Inr
     [\<lparr>uid = ''XCUIElementTypeApplication_0_0_XCUIElementTypeButton_100_40_0'',
       bbox = ((100, 100), (200, 140)), attrib = ''clickable'',
       element_type = ''XCUIElementTypeButton'', name = None, label = None,
       elem_identifier = None\<rparr>,
      \<lparr>uid = ''XCUIElementTypeApplication_0_0_XCUIElementTypeSearchField_50_50_0'',
       bbox = ((0, 300), (50, 350)), attrib = ''clickable'',
       element_type = ''XCUIElementTypeSearchField'', name = None, label = None,
       elem_identifier = None\<rparr>] \<and>
   traverse_ios_tree
     (\<lambda>s. Some (Element ''XCUIElementTypeApplication'' []
        [Element ''XCUIElementTypeButton'' [(''bounds'', ''{{100, 100}, {100, 40}}'')] [],
         Element ''XCUIElementTypeTextField'' [(''bounds'', ''{{102, 102}, {96, 36}}'')] [],
         Element ''XCUIElementTypeSearchField'' [(''bounds'', ''{{0, 300}, {50, 50}}'')] []]))
     ''<doc/>'' [] ''clickable'' True
   = Inr
     [\<lparr>uid = ''XCUIElementTypeApplication_0_0_XCUIElementTypeButton_100_40_0'',
       bbox = ((100, 100), (200, 140)), attrib = ''clickable'',
       element_type = ''XCUIElementTypeButton'', name = None, label = None,
       elem_identifier = None\<rparr>,
      \<lparr>uid = ''XCUIElementTypeApplication_0_0_XCUIElementTypeSearchField_50_50_0'',
       bbox = ((0, 300), (50, 350)), attrib = ''clickable'',
       element_type = ''XCUIElementTypeSearchField'', name = None, label = None,
       elem_identifier = None\<rparr>]"
proof -
  let ?parse = "\<lambda>s::string. Some (Element ''XCUIElementTypeApplication'' []
        [Element ''XCUIElementTypeButton'' [(''bounds'', ''{{100, 100}, {100, 40}}'')] [],
         Element ''XCUIElementTypeTextField'' [(''bounds'', ''{{102, 102}, {96, 36}}'')] [],
         Element ''XCUIElementTypeSearchField'' [(''bounds'', ''{{0, 300}, {50, 50}}'')] []])"
  let ?c0 = "\<lparr>uid = ''XCUIElementTypeApplication_0_0_XCUIElementTypeButton_100_40_0'',
       bbox = ((100::int, 100::int), (200::int, 140::int)), attrib = ''clickable'',
       element_type = ''XCUIElementTypeButton'', name = None, label = None,
       elem_identifier = None\<rparr>"
  let ?c1 = "\<lparr>uid = ''XCUIElementTypeApplication_0_0_XCUIElementTypeSearchField_50_50_0'',
       bbox = ((0::int, 300::int), (50::int, 350::int)), attrib = ''clickable'',
       element_type = ''XCUIElementTypeSearchField'', name = None, label = None,
       elem_identifier = None\<rparr>"
  have g: "get_ios_elements ?parse ''<doc/>'' = Inr [?c0, ?c1]" by code_simp
  have s: "''<doc/>'' \<noteq> [] \<and> strip ''<doc/>'' \<noteq> []" by code_simp
  from merged_elements_all_clickable[of ?parse "''<doc/>''" "[?c0, ?c1]"] g s
  have "traverse_ios_tree ?parse ''<doc/>'' [] ''clickable'' True = Inr [?c0, ?c1]"
    by blast
  with g show ?thesis by (intro conjI)
qed

section \<open>Element identifiers\<close>







section \<open>The source normalizer\<close>







section \<open>The coordinate transforms\<close>

lemma bit_length_le: "n < 2 ^ k \<Longrightarrow> bit_length n \<le> int k"
proof (induction k arbitrary: n)
  case 0
  then show ?case by (subst bit_length.simps) simp
next
  case (Suc k)
  show ?case
  proof (cases "n \<le> 0")
    case True
    then show ?thesis by (subst bit_length.simps) simp
  next
    case False
    from Suc.prems have "n div 2 < 2 ^ k" by simp
    from Suc.IH[OF this] False show ?thesis by (subst bit_length.simps) simp
  qed
qed

lemma bit_length_3: "bit_length 3 = 2"
  by code_simp

lemma round_half_even_3:
  "3 * round_half_even n 3 - 1 \<le> n \<and> n \<le> 3 * round_half_even n 3 + 1"
proof -
  have "n = 3 * (n div 3) + n mod 3" by simp
  moreover have "0 \<le> n mod 3" "n mod 3 < 3" by simp_all
  ultimately show ?thesis
    unfolding round_half_even_def Let_def by (auto split: if_splits) presburger+
qed

lemma div_between:
  assumes "a * P \<le> m" and "m < a * P + P"
  shows "(m::int) div P = a"
proof -
  from assms have P: "0 < P" by linarith
  define r where "r = m - a * P"
  have r: "0 \<le> r" "r < P" using assms by (simp_all add: r_def)
  have "m = r + a * P" by (simp add: r_def)
  then have "m div P = (r + a * P) div P" by simp
  also have "\<dots> = a + r div P" using P by (simp add: div_mult_self1)
  also have "r div P = 0" using r by (rule div_pos_pos_trivial)
  finally show ?thesis by simp
qed

text \<open>
  Rounding \<open>x / 3\<close> to a grid of step \<open>1 / P\<close> with \<open>P \<ge> 2\<close> and truncating gives
  \<open>x div 3\<close>: the rounded value stays strictly between two integers.
\<close>

lemma trunc_round_third:
  assumes "0 \<le> x" and "2 \<le> P"
  shows "0 \<le> round_half_even (x * P) 3 \<and> round_half_even (x * P) 3 div P = x div 3"
proof -
  define m where "m = round_half_even (x * P) 3"
  define a where "a = x div 3"
  define b where "b = x mod 3"
  have x: "x = 3 * a + b" and b: "0 \<le> b" "b \<le> 2"
    by (simp_all add: a_def b_def)
  have a: "0 \<le> a" using assms(1) by (simp add: a_def)
  have xp: "x * P = 3 * (a * P) + b * P" by (simp add: x algebra_simps)
  have bp: "0 \<le> b * P" "b * P \<le> 2 * P"
    using b assms(2) by (simp_all add: mult_right_mono)
  from round_half_even_3[of "x * P"] have r: "3 * m - 1 \<le> x * P" "x * P \<le> 3 * m + 1"
    by (simp_all add: m_def)
  have lo: "a * P \<le> m" using r xp bp by linarith
  have hi: "m < a * P + P" using r xp bp assms(2) by linarith
  have "0 \<le> a * P" using a assms(2) by simp
  with lo have "0 \<le> m" by linarith
  moreover have "m div P = a" using lo hi by (rule div_between)
  ultimately show ?thesis by (simp add: m_def a_def)
qed

lemma round64_third:
  assumes "0 < x" and "x < 2 ^ 53"
  shows "\<exists>k. k \<le> - 1 \<and> round64 False x 3 = Finite (round_half_even (x * 2 ^ nat (- k)) 3) k"
proof -
  define t where "t = bit_length x - bit_length 3"
  define e where "e = (if (if 0 \<le> t then 3 * 2 ^ nat t \<le> x else 3 \<le> x * 2 ^ nat (- t))
                        then t else t - 1)"
  define k where "k = max (e - 52) (- 1074)"
  define m where "m = (if 0 \<le> k then round_half_even x (3 * 2 ^ nat k)
                        else round_half_even (x * 2 ^ nat (- k)) 3)"
  have "t \<le> 51" using bit_length_le[OF assms(2)] by (simp add: t_def bit_length_3)
  then have "e \<le> 51" by (simp add: e_def)
  then have k: "k \<le> - 1" by (simp add: k_def)
  from assms(1) have x0: "x \<noteq> 0" by simp
  have "round64 False x 3 =
        (if 0 \<le> k \<and> 2 ^ 1024 \<le> m * 2 ^ nat k then Infinity
         else Finite (if False then - m else m) k)"
    unfolding round64_def Let_def m_def k_def e_def t_def using x0 by (simp only: if_False)
  moreover from k have "m = round_half_even (x * 2 ^ nat (- k)) 3" by (simp add: m_def)
  ultimately have "round64 False x 3 = Finite (round_half_even (x * 2 ^ nat (- k)) 3) k"
    using k by simp
  with k show ?thesis by blast
qed

lemma int_truediv_third:
  assumes "0 \<le> x" and "x < 2 ^ 53"
  shows "\<exists>f. truediv x 3 = Inr f \<and> py_int f = Inr (x div 3)"
proof (cases "x = 0")
  case True
  then show ?thesis by (simp add: truediv_def round64_def py_int_def)
next
  case False
  with assms(1) have "0 < x" by simp
  from round64_third[OF this assms(2)] obtain k where k: "k \<le> - 1"
    and r: "round64 False x 3 = Finite (round_half_even (x * 2 ^ nat (- k)) 3) k"
    by blast
  have "(2::int) ^ 1 \<le> 2 ^ nat (- k)" using k by (intro power_increasing) simp_all
  then have P: "(2::int) \<le> 2 ^ nat (- k)" by simp
  from trunc_round_third[OF assms(1) P] k
  have "py_int (Finite (round_half_even (x * 2 ^ nat (- k)) 3) k) = Inr (x div 3)"
    by (simp add: py_int_def)
  moreover have "truediv x 3 = Inr (Finite (round_half_even (x * 2 ^ nat (- k)) 3) k)"
    using assms(1) r by (simp add: truediv_def)
  ultimately show ?thesis by blast
qed

text \<open>
  C4, as amended. The scale factor is 3. \<open>logical_to_physical\<close> multiplies each
  component by 3. For \<open>0 \<le> x, y < 2 ^ 53\<close>, \<open>physical_to_logical\<close> returns the truncated
  quotients \<open>(x div 3, y div 3)\<close>, and converting back gives a point that is at most 2
  below \<open>(x, y)\<close> in each component and never above it.
\<close>

theorem coordinate_round_trip:
  assumes "0 \<le> x" "x < 2 ^ 53" "0 \<le> y" "y < 2 ^ 53"
  shows "SCALE_FACTOR = 3 \<and>
         logical_to_physical a b = (a * 3, b * 3) \<and>
         physical_to_logical x y = Inr (x div 3, y div 3) \<and>
         (\<exists>lx ly px py. physical_to_logical x y = Inr (lx, ly) \<and>
            logical_to_physical lx ly = (px, py) \<and>
            px \<le> x \<and> x - px \<le> SCALE_FACTOR - 1 \<and> py \<le> y \<and> y - py \<le> SCALE_FACTOR - 1)"
proof -
  from int_truediv_third[OF assms(1,2)] obtain fx where
    fx: "truediv x 3 = Inr fx" "py_int fx = Inr (x div 3)" by blast
  from int_truediv_third[OF assms(3,4)] obtain fy where
    fy: "truediv y 3 = Inr fy" "py_int fy = Inr (y div 3)" by blast
  have p: "physical_to_logical x y = Inr (x div 3, y div 3)"
    by (simp add: physical_to_logical_def SCALE_FACTOR_def fx fy)
  have l: "logical_to_physical (x div 3) (y div 3) = (x div 3 * 3, y div 3 * 3)"
    by (simp add: logical_to_physical_def SCALE_FACTOR_def)
  have "x div 3 * 3 \<le> x \<and> x - x div 3 * 3 \<le> 2 \<and> y div 3 * 3 \<le> y \<and> y - y div 3 * 3 \<le> 2"
    by presburger
  with p l show ?thesis
    by (simp add: SCALE_FACTOR_def logical_to_physical_def)
qed

theorem coordinate_round_trip_witness:
  "physical_to_logical 1178 2555 = Inr (392, 851) \<and>
   logical_to_physical 392 851 = (1176, 2553) \<and>
   (1178::int) - 1176 \<le> 2 \<and> (2555::int) - 2553 \<le> 2"
proof -
  have b: "(0::int) \<le> 1178" "(1178::int) < 2 ^ 53" "(0::int) \<le> 2555" "(2555::int) < 2 ^ 53"
    by simp_all
  from coordinate_round_trip[OF b, of 392 851] show ?thesis by simp
qed

text \<open>
  The claim as first stated fails for large integers, where the float quotient is
  no longer the truncated one: \<open>10 ^ 17\<close> comes back 4 lower.
\<close>

theorem coordinate_round_trip_counterexample:
  "physical_to_logical (10 ^ 17) 0 = Inr (33333333333333332, 0) \<and>
   logical_to_physical 33333333333333332 0 = (99999999999999996, 0) \<and>
   \<not> (10 ^ 17 - (99999999999999996::int) \<le> SCALE_FACTOR - 1) \<and>
   (33333333333333332::int) \<noteq> 10 ^ 17 div 3"
  by code_simp

section \<open>Decode failures\<close>

text \<open>
  What the decoder does on a failure: with fewer than four comma-separated parts it
  returns \<open>None\<close>, and when a conversion of one of the first four parts raises, whatever
  the exception, it returns \<open>None\<close>.
\<close>

lemma parse_bounds_few_parts:
  assumes "\<not> contains bounds_str ''{{''" and "length (split bounds_str CHR '','') < 4"
  shows "parse_bounds bounds_str = None"
  using assms by (simp add: parse_bounds_def parse_bounds_try_def Let_def)

lemma parse_bounds_few_parts_nested:
  assumes "contains bounds_str ''{{''"
    and "length (split (remove_braces bounds_str) CHR '','') < 4"
  shows "parse_bounds bounds_str = None"
  using assms by (simp add: parse_bounds_def parse_bounds_try_def Let_def)

lemma parse_bounds_conversion_raises:
  assumes "\<not> contains bounds_str ''{{''" and "parts_box (split bounds_str CHR '','') = Inl e"
  shows "parse_bounds bounds_str = None"
  using assms by (simp add: parse_bounds_def parse_bounds_try_def Let_def)

text \<open>A node whose bounding box resolves to \<open>None\<close> is skipped and the traversal goes on.\<close>

lemma unresolved_node_excluded:
  assumes "get_element_bounds node = Inr None"
  shows "is_interactive_element node = Inr False \<and> visit attr add_index node path els = Inr els"
proof -
  from assms have "is_interactive_element node = Inr False"
    by (simp add: is_interactive_element_def Let_def)
  then show ?thesis by (simp add: visit_def)
qed

text \<open>
  C9, where the code departs from the claim. The separate attributes \<open>x\<close>, \<open>y\<close>,
  \<open>width\<close>, \<open>height\<close> go through a handler for ValueError and TypeError only. The text
  \<open>inf\<close> is a float, and \<open>int\<close> of it raises OverflowError, which the handler lets
  through: \<open>get_element_bounds\<close> raises, and with it the classification of the node, the
  traversal and \<open>get_ios_elements\<close>, although the document has a second, well-formed
  button. The same four texts as one \<open>bounds\<close> string give \<open>None\<close> without an exception.
\<close>

theorem unresolved_bounds_abort_traversal:
  "parse_bounds ''inf,0,10,10'' = None \<and>
   get_element_bounds
     (Element ''XCUIElementTypeButton''
        [(''x'', ''inf''), (''y'', ''0''), (''width'', ''10''), (''height'', ''10'')] [])
     = Inl OverflowError \<and>
   is_interactive_element
     (Element ''XCUIElementTypeButton''
        [(''x'', ''inf''), (''y'', ''0''), (''width'', ''10''), (''height'', ''10'')] [])
     = Inl OverflowError \<and>
   get_ios_elements
     (\<lambda>s. Some (Element ''XCUIElementTypeApplication'' []
        [Element ''XCUIElementTypeButton''
           [(''x'', ''inf''), (''y'', ''0''), (''width'', ''10''), (''height'', ''10'')] [],
         Element ''XCUIElementTypeButton''
           [(''x'', ''100''), (''y'', ''100''), (''width'', ''100''), (''height'', ''40'')] []]))
     ''<doc/>''
     = Inl OverflowError"
  by code_simp

end
